theory Spec2Isabelle
  imports Complex_Main "HOL-Library.Multiset"
begin

section \<open>Exceptions and outcomes of one API call\<close>

text \<open>
  The classes of \<^verbatim>\<open>openai.error\<close> that \<^verbatim>\<open>APIRequest.call_api\<close> tells apart in its
  \<^verbatim>\<open>except\<close> clauses; none of them is a subclass of another, so the clause taken is a
  function of the constructor. \<open>OtherException\<close> is whatever only the last clause
  (\<^verbatim>\<open>except Exception\<close>) catches. The argument is the exception object itself.
\<close>

datatype 'e api_exception =
    RateLimitError 'e
  | Timeout 'e
  | APIError 'e
  | APIConnectionError 'e
  | ServiceUnavailableError 'e
  | InvalidRequestError 'e
  | OtherException 'e

text \<open>
  The messages of the \<^verbatim>\<open>mlflow.MlflowException\<close>s the module raises or stores:
  \<^item> \<open>RetriedTenMinutes\<close>: "Request failed after retrying for 10 minutes."
  \<^item> \<open>RequestSizeExceeded\<close>: "Request size exceeded max tokens."
  \<^item> \<open>TasksFailed n\<close>: "\{n\} tasks failed. See logs for details."
  \<^item> \<open>InvalidCredentials\<close>: what \<^verbatim>\<open>api_token.validate\<close> raises.
\<close>

datatype message =
    RetriedTenMinutes
  | RequestSizeExceeded
  | TasksFailed int
  | InvalidCredentials

datatype 'e exn =
    MlflowException message
  | OpenAIError "'e api_exception"
  | TypeError
  | NotImplementedError

text \<open>What \<^verbatim>\<open>self.task.create(**self.request_json, timeout=self.timeout)\<close> does: it returns
  a response or raises.\<close>

datatype ('r, 'e) outcome = Returns 'r | Raises "'e api_exception"

section \<open>StatusTracker\<close>

text \<open>The lock makes each method one atomic step; it is not a field of the model.\<close>

record 'e StatusTracker =
  num_tasks_started :: int
  num_tasks_in_progress :: int
  num_tasks_succeeded :: int
  num_tasks_failed :: int
  num_rate_limit_errors :: int
  num_api_errors :: int
  num_other_errors :: int
  time_of_last_rate_limit_error :: real
  error :: "'e exn option"

definition new_StatusTracker :: "'e StatusTracker" where
  "new_StatusTracker =
     \<lparr>num_tasks_started = 0, num_tasks_in_progress = 0, num_tasks_succeeded = 0,
      num_tasks_failed = 0, num_rate_limit_errors = 0, num_api_errors = 0,
      num_other_errors = 0, time_of_last_rate_limit_error = 0, error = None\<rparr>"

definition start_task :: "'e StatusTracker \<Rightarrow> 'e StatusTracker" where
  "start_task st =
     st\<lparr>num_tasks_started := num_tasks_started st + 1,
        num_tasks_in_progress := num_tasks_in_progress st + 1\<rparr>"

definition complete_task :: "bool \<Rightarrow> 'e StatusTracker \<Rightarrow> 'e StatusTracker" where
  "complete_task success st =
     (let st1 = st\<lparr>num_tasks_in_progress := num_tasks_in_progress st - 1\<rparr>
      in if success then st1\<lparr>num_tasks_succeeded := num_tasks_succeeded st1 + 1\<rparr>
         else st1\<lparr>num_tasks_failed := num_tasks_failed st1 + 1\<rparr>)"

definition increment_num_rate_limit_errors :: "'e StatusTracker \<Rightarrow> 'e StatusTracker" where
  "increment_num_rate_limit_errors st =
     st\<lparr>num_rate_limit_errors := num_rate_limit_errors st + 1\<rparr>"

definition increment_num_api_errors :: "'e StatusTracker \<Rightarrow> 'e StatusTracker" where
  "increment_num_api_errors st = st\<lparr>num_api_errors := num_api_errors st + 1\<rparr>"

text \<open>The bookkeeping identity between the four task counters.\<close>

definition counters_balanced :: "'e StatusTracker \<Rightarrow> bool" where
  "counters_balanced st \<longleftrightarrow>
     num_tasks_started st
       = num_tasks_in_progress st + num_tasks_succeeded st + num_tasks_failed st"

section \<open>APIRequest and the state of the dispatch loop\<close>

text \<open>
  The fields \<^verbatim>\<open>task\<close>, \<^verbatim>\<open>results\<close> (a reference to the list shared by the whole
  run) and \<^verbatim>\<open>timeout\<close> are the same for every request of a run; they live in the
  configuration and in the loop state.
\<close>

record 'j APIRequest =
  index :: int
  request_json :: 'j
  token_consumption :: int
  attempts_left :: int
  start_time :: real
  last_log_time :: real

text \<open>
  The local variables of \<^verbatim>\<open>process_api_requests\<close>. \<open>executor\<close> holds the requests
  submitted to the thread pool whose \<^verbatim>\<open>call_api\<close> has not finished yet.
\<close>

record ('j, 'r, 'e) loop_state =
  retry_queue :: "'j APIRequest list"
  status_tracker :: "'e StatusTracker"
  next_request :: "'j APIRequest option"
  available_request_capacity :: real
  available_token_capacity :: real
  last_update_time :: real
  results :: "(int \<times> 'r) list"
  requests_iter :: "(int \<times> 'j) list"
  requests_exhausted :: bool
  executor :: "'j APIRequest list"

text \<open>
  The arguments of \<^verbatim>\<open>process_api_requests\<close> other than the requests. \<open>create\<close> is
  \<^verbatim>\<open>task.create\<close>: its outcome depends on the payload and on the state \<open>'w\<close> of the
  outside world at the moment of the call. \<open>num_tokens_consumed_from_request\<close> is the cost
  estimator applied to \<^verbatim>\<open>task\<close> and \<^verbatim>\<open>token_encoding_name\<close>; it counts tokens with the
  external \<^verbatim>\<open>tiktoken\<close> encoder and returns an integer or raises.
\<close>

record ('j, 'w, 'r, 'e) config =
  create :: "'j \<Rightarrow> 'w \<Rightarrow> ('r, 'e) outcome"
  num_tokens_consumed_from_request :: "'j \<Rightarrow> 'e exn + int"
  max_requests_per_minute :: real
  max_tokens_per_minute :: real
  max_attempts :: int
  throw_original_error :: bool

section \<open>APIRequest.call_api\<close>

definition on_rate_limit ::
  "'j APIRequest \<Rightarrow> real \<Rightarrow> ('j, 'r, 'e) loop_state \<Rightarrow> ('j, 'r, 'e) loop_state" where
  "on_rate_limit self current_time s =
     (let st = increment_num_rate_limit_errors
                 ((status_tracker s)\<lparr>time_of_last_rate_limit_error := current_time\<rparr>)
      in if current_time - start_time self < 600
         then s\<lparr>status_tracker := st,
                retry_queue := retry_queue s @
                  [if current_time - last_log_time self > 60
                   then self\<lparr>last_log_time := current_time\<rparr> else self]\<rparr>
         else s\<lparr>status_tracker :=
                  (complete_task False st)\<lparr>error := Some (MlflowException RetriedTenMinutes)\<rparr>\<rparr>)"

definition on_retryable ::
  "'j APIRequest \<Rightarrow> 'e api_exception \<Rightarrow> ('j, 'r, 'e) loop_state \<Rightarrow> ('j, 'r, 'e) loop_state" where
  "on_retryable self e s =
     (let st = increment_num_api_errors (status_tracker s)
      in if attempts_left self > 0
         then s\<lparr>status_tracker := st, retry_queue := retry_queue s @ [self]\<rparr>
         else s\<lparr>status_tracker := (complete_task False st)\<lparr>error := Some (OpenAIError e)\<rparr>\<rparr>)"

text \<open>Both branches of the \<^verbatim>\<open>InvalidRequestError\<close> clause and the last clause change the
  state in the same way; they differ in what they log.\<close>

definition on_unretryable ::
  "'e api_exception \<Rightarrow> ('j, 'r, 'e) loop_state \<Rightarrow> ('j, 'r, 'e) loop_state" where
  "on_unretryable e s =
     s\<lparr>status_tracker :=
         (complete_task False (increment_num_api_errors (status_tracker s)))
           \<lparr>error := Some (OpenAIError e)\<rparr>\<rparr>"

fun handle_outcome ::
  "'j APIRequest \<Rightarrow> real \<Rightarrow> ('r, 'e) outcome \<Rightarrow> ('j, 'r, 'e) loop_state \<Rightarrow> ('j, 'r, 'e) loop_state"
where
  "handle_outcome self now (Returns response) s =
     s\<lparr>status_tracker := complete_task True (status_tracker s),
       results := results s @ [(index self, response)]\<rparr>"
| "handle_outcome self now (Raises (RateLimitError e)) s = on_rate_limit self now s"
| "handle_outcome self now (Raises (Timeout e)) s = on_retryable self (Timeout e) s"
| "handle_outcome self now (Raises (APIError e)) s = on_retryable self (APIError e) s"
| "handle_outcome self now (Raises (APIConnectionError e)) s =
     on_retryable self (APIConnectionError e) s"
| "handle_outcome self now (Raises (ServiceUnavailableError e)) s =
     on_retryable self (ServiceUnavailableError e) s"
| "handle_outcome self now (Raises (InvalidRequestError e)) s =
     on_unretryable (InvalidRequestError e) s"
| "handle_outcome self now (Raises (OtherException e)) s =
     on_unretryable (OtherException e) s"

text \<open>\<open>w\<close> is the state of the world when the call is made, \<open>now\<close> what
  \<^verbatim>\<open>time.time()\<close> returns in the rate-limit clause.\<close>

definition call_api ::
  "('j, 'w, 'r, 'e) config \<Rightarrow> 'j APIRequest \<Rightarrow> 'w \<Rightarrow> real \<Rightarrow>
   ('j, 'r, 'e) loop_state \<Rightarrow> ('j, 'r, 'e) loop_state" where
  "call_api cfg self w now s = handle_outcome self now (create cfg (request_json self) w) s"

section \<open>process_api_requests\<close>

text \<open>Times, ceilings and budgets are Python floats; the model computes with them as real
  numbers. Python's \<^verbatim>\<open>int(x)\<close> on a float truncates towards zero.\<close>

definition py_int :: "real \<Rightarrow> int" where
  "py_int x = (if 0 \<le> x then \<lfloor>x\<rfloor> else \<lceil>x\<rceil>)"

definition enumerate_py :: "'a list \<Rightarrow> (int \<times> 'a) list" where
  "enumerate_py xs = zip (map int [0..<length xs]) xs"

definition initial_state ::
  "('j, 'w, 'r, 'e) config \<Rightarrow> 'j list \<Rightarrow> real \<Rightarrow> ('j, 'r, 'e) loop_state" where
  "initial_state cfg requests t0 =
     \<lparr>retry_queue = [], status_tracker = new_StatusTracker, next_request = None,
      available_request_capacity = max_requests_per_minute cfg,
      available_token_capacity = max_tokens_per_minute cfg,
      last_update_time = t0, results = [], requests_iter = enumerate_py requests,
      requests_exhausted = False, executor = []\<rparr>"

text \<open>Lines 248--269: get the next request, if none is held. An exception of the cost
  estimator leaves the function.\<close>

definition get_next_request ::
  "('j, 'w, 'r, 'e) config \<Rightarrow> int \<Rightarrow> real \<Rightarrow> ('j, 'r, 'e) loop_state \<Rightarrow>
   'e exn + ('j, 'r, 'e) loop_state" where
  "get_next_request cfg last_index current_time s =
     (case next_request s of
        Some r \<Rightarrow> Inr s
      | None \<Rightarrow>
         (case retry_queue s of
            r # q \<Rightarrow> Inr (s\<lparr>next_request := Some r, retry_queue := q\<rparr>)
          | [] \<Rightarrow>
             (case requests_iter s of
                [] \<Rightarrow> Inr s
              | (i, rj) # rest \<Rightarrow>
                 (case num_tokens_consumed_from_request cfg rj of
                    Inl x \<Rightarrow> Inl x
                  | Inr c \<Rightarrow>
                     Inr (s\<lparr>requests_iter := rest,
                            next_request := Some
                              \<lparr>index = i, request_json = rj, token_consumption = c,
                               attempts_left = max_attempts cfg,
                               start_time = current_time, last_log_time = current_time\<rparr>,
                            status_tracker := start_task (status_tracker s),
                            requests_exhausted := (i = last_index)\<rparr>)))))"

text \<open>Lines 271--283: update the available capacity.\<close>

definition update_capacity ::
  "('j, 'w, 'r, 'e) config \<Rightarrow> real \<Rightarrow> ('j, 'r, 'e) loop_state \<Rightarrow> ('j, 'r, 'e) loop_state" where
  "update_capacity cfg current_time s =
     (let seconds_since_update = current_time - last_update_time s
      in s\<lparr>available_request_capacity :=
              min (available_request_capacity s
                     + of_int (py_int (max_requests_per_minute cfg * seconds_since_update / 60)))
                  (max_requests_per_minute cfg),
            available_token_capacity :=
              min (available_token_capacity s
                     + of_int (py_int (max_tokens_per_minute cfg * seconds_since_update / 60)))
                  (max_tokens_per_minute cfg),
            last_update_time := current_time\<rparr>)"

text \<open>Lines 285--310: the admission test and its two branches. \<open>token_ok\<close> says whether
  \<^verbatim>\<open>api_token.validate\<close> returns; when it raises, the exception leaves the function.\<close>

definition admit ::
  "bool \<Rightarrow> ('j, 'r, 'e) loop_state \<Rightarrow> 'e exn + ('j, 'r, 'e) loop_state" where
  "admit token_ok s =
     (case next_request s of
        None \<Rightarrow> Inr s
      | Some r \<Rightarrow>
         (let next_request_tokens = token_consumption r
          in if available_request_capacity s \<ge> 1
                \<and> available_token_capacity s \<ge> of_int next_request_tokens
             then if token_ok
                  then Inr (s\<lparr>available_request_capacity := available_request_capacity s - 1,
                              available_token_capacity :=
                                available_token_capacity s - of_int next_request_tokens,
                              executor := executor s @ [r\<lparr>attempts_left := attempts_left r - 1\<rparr>],
                              next_request := None\<rparr>)
                  else Inl (MlflowException InvalidCredentials)
             else Inr (s\<lparr>next_request := None,
                         status_tracker :=
                           (complete_task False (status_tracker s))
                             \<lparr>error := Some (MlflowException RequestSizeExceeded)\<rparr>\<rparr>)))"

text \<open>Lines 316--328: how long the loop sleeps after a recent rate limit error. Sleeping
  changes no variable of the loop, only the times the next iteration reads.\<close>

definition remaining_seconds_to_pause :: "real \<Rightarrow> 'e StatusTracker \<Rightarrow> real" where
  "remaining_seconds_to_pause now st =
     (let seconds_since_rate_limit_error = now - time_of_last_rate_limit_error st
      in if seconds_since_rate_limit_error < 15 then 15 - seconds_since_rate_limit_error else 0)"

datatype ('s, 'x) iteration = Continue 's | Break 's | Raised 'x

text \<open>One iteration of \<^verbatim>\<open>while True\<close>. \<open>t1\<close> and \<open>t2\<close> are the two readings of
  \<^verbatim>\<open>time.time()\<close> at lines 255 and 272.\<close>

definition tick ::
  "('j, 'w, 'r, 'e) config \<Rightarrow> int \<Rightarrow> real \<Rightarrow> real \<Rightarrow> bool \<Rightarrow> ('j, 'r, 'e) loop_state \<Rightarrow>
   (('j, 'r, 'e) loop_state, 'e exn) iteration" where
  "tick cfg last_index t1 t2 token_ok s =
     (case get_next_request cfg last_index t1 s of
        Inl x \<Rightarrow> Raised x
      | Inr s1 \<Rightarrow>
         (case admit token_ok (update_capacity cfg t2 s1) of
            Inl x \<Rightarrow> Raised x
          | Inr s3 \<Rightarrow>
             if requests_exhausted s3 \<and> num_tasks_in_progress (status_tracker s3) = 0
             then Break s3 else Continue s3))"

text \<open>A worker finishes the call of the \<open>k\<close>-th request in flight.\<close>

definition worker_done ::
  "('j, 'w, 'r, 'e) config \<Rightarrow> nat \<Rightarrow> 'w \<Rightarrow> real \<Rightarrow> ('j, 'r, 'e) loop_state \<Rightarrow>
   ('j, 'r, 'e) loop_state" where
  "worker_done cfg k w now s =
     (if k < length (executor s)
      then call_api cfg (executor s ! k) w now
             (s\<lparr>executor := take k (executor s) @ drop (Suc k) (executor s)\<rparr>)
      else s)"

text \<open>
  The loop runs against a schedule: what the environment does, in order. \<open>Tick t1 t2 ok\<close>
  is one iteration of the loop, \<open>Done k w now\<close> the completion of one call in a worker
  thread, between two iterations. The tracker's lock and the queue make the steps of the
  threads atomic in the source; the model takes one iteration and one \<open>call_api\<close> as one
  step each, in any order and for any request in flight. The pool's size bounds how many
  calls run at once, not which of them completes next. \<open>run\<close> ends in \<open>Break\<close> when the loop has left through
  \<^verbatim>\<open>break\<close>, in \<open>Raised\<close> when an exception has left it, and in \<open>Continue s\<close> when it is
  still running, in state \<open>s\<close>, at the end of the schedule.
\<close>

datatype 'w event = Tick real real bool | Done nat 'w real

fun run ::
  "('j, 'w, 'r, 'e) config \<Rightarrow> int \<Rightarrow> ('j, 'r, 'e) loop_state \<Rightarrow> 'w event list \<Rightarrow>
   (('j, 'r, 'e) loop_state, 'e exn) iteration" where
  "run cfg last_index s [] = Continue s"
| "run cfg last_index s (Tick t1 t2 ok # es) =
     (case tick cfg last_index t1 t2 ok s of
        Continue s' \<Rightarrow> run cfg last_index s' es
      | Break s' \<Rightarrow> Break s'
      | Raised x \<Rightarrow> Raised x)"
| "run cfg last_index s (Done k w now # es) =
     run cfg last_index (worker_done cfg k w now s) es"

text \<open>
  \<^verbatim>\<open>sorted(results)\<close> orders the pairs by index and compares two responses only when
  their indices are equal and they differ; responses are \<^verbatim>\<open>OpenAIObject\<close>s
  (dictionaries), which Python cannot order, so that comparison raises TypeError.
\<close>

definition sorted_results :: "(int \<times> 'r) list \<Rightarrow> 'e exn + 'r list" where
  "sorted_results rs =
     (if \<exists>(i, a) \<in> set rs. \<exists>(j, b) \<in> set rs. i = j \<and> a \<noteq> b
      then Inl TypeError
      else Inr (map snd (sort_key fst rs)))"

text \<open>Lines 333--346, after the loop. \<^verbatim>\<open>raise None\<close> is a TypeError.\<close>

definition finish ::
  "('j, 'w, 'r, 'e) config \<Rightarrow> nat \<Rightarrow> ('j, 'r, 'e) loop_state \<Rightarrow> 'e exn + 'r list" where
  "finish cfg len_requests s =
     (let st = status_tracker s
      in if num_tasks_failed st > 0
         then if throw_original_error cfg \<and> len_requests = 1
              then (case error st of Some e \<Rightarrow> Inl e | None \<Rightarrow> Inl TypeError)
              else Inl (MlflowException (TasksFailed (num_tasks_failed st)))
         else sorted_results (results s))"

text \<open>The whole function: \<open>None\<close> when it has not returned by the end of the schedule,
  otherwise the exception it raises or the list it returns.\<close>

definition process_api_requests ::
  "('j, 'w, 'r, 'e) config \<Rightarrow> 'j list \<Rightarrow> real \<Rightarrow> 'w event list \<Rightarrow> ('e exn + 'r list) option"
where
  "process_api_requests cfg requests t0 es =
     (case run cfg (int (length requests) - 1) (initial_state cfg requests t0) es of
        Continue s \<Rightarrow> None
      | Raised x \<Rightarrow> Some (Inl x)
      | Break s \<Rightarrow> Some (finish cfg (length requests) s))"

text \<open>
  A configuration to run the loop on: the payload of a request is its own token cost, the
  world decides whether a call fails (\<open>Some\<close> exception) or returns (\<open>None\<close>), and the
  response to payload \<open>j\<close> is \<open>2 * j\<close>.
\<close>

definition example_config ::
  "real \<Rightarrow> real \<Rightarrow> int \<Rightarrow> bool \<Rightarrow> (int, unit api_exception option, int, unit) config" where
  "example_config mr mt k thr =
     \<lparr>create = (\<lambda>j w. case w of None \<Rightarrow> Returns (2 * j) | Some e \<Rightarrow> Raises e),
      num_tokens_consumed_from_request = (\<lambda>j. Inr j),
      max_requests_per_minute = mr, max_tokens_per_minute = mt,
      max_attempts = k, throw_original_error = thr\<rparr>"



text \<open>Nothing is held, queued, left to read or in flight, and the last request has not
  been read.\<close>

definition idle :: "('j, 'r, 'e) loop_state \<Rightarrow> bool" where
  "idle s \<longleftrightarrow> next_request s = None \<and> retry_queue s = [] \<and> requests_iter s = []
     \<and> executor s = [] \<and> \<not> requests_exhausted s"


definition example_request :: "int APIRequest" where
  "example_request =
     \<lparr>index = 0, request_json = 60, token_consumption = 60, attempts_left = 4,
      start_time = 0, last_log_time = 0\<rparr>"

text \<open>The state of a run of \<open>example_config 10 1000 5 False\<close> on one request of 60 tokens,
  after the request was admitted at time 0 and its call failed with a rate limit error at
  time 1.\<close>

definition requeued_state :: "(int, int, unit) loop_state" where
  "requeued_state =
     \<lparr>retry_queue = [example_request],
      status_tracker =
        \<lparr>num_tasks_started = 1, num_tasks_in_progress = 1, num_tasks_succeeded = 0,
         num_tasks_failed = 0, num_rate_limit_errors = 1, num_api_errors = 0,
         num_other_errors = 0, time_of_last_rate_limit_error = 1, error = None\<rparr>,
      next_request = None, available_request_capacity = 9, available_token_capacity = 940,
      last_update_time = 0, results = [], requests_iter = [], requests_exhausted = True,
      executor = []\<rparr>"





text \<open>The requests alive in a run: the one the loop holds, those in the retry queue and
  those in flight.\<close>

definition held :: "('j, 'r, 'e) loop_state \<Rightarrow> 'j APIRequest list" where
  "held s = (case next_request s of None \<Rightarrow> [] | Some r \<Rightarrow> [r]) @ retry_queue s @ executor s"



text \<open>No request alive and no request still to be read has a negative cost.\<close>

definition costs_nonneg :: "('j, 'w, 'r, 'e) config \<Rightarrow> ('j, 'r, 'e) loop_state \<Rightarrow> bool" where
  "costs_nonneg cfg s \<longleftrightarrow>
     (\<forall>r \<in> set (held s). 0 \<le> token_consumption r)
     \<and> (\<forall>j \<in> snd ` set (requests_iter s).
          \<forall>c. num_tokens_consumed_from_request cfg j = Inr c \<longrightarrow> 0 \<le> c)"

text \<open>The indices of the first \<open>n\<close> requests.\<close>

definition indices_read :: "nat \<Rightarrow> int multiset" where
  "indices_read n = mset (map int [0..<n])"

text \<open>
  What holds of the state of a run on \<open>reqs\<close> between any two steps. The supply has been
  read up to the number of tasks started, and the flag \<open>requests_exhausted\<close> is up exactly
  when the last request of a non-empty list has been read.
\<close>

definition supply_ok :: "'j list \<Rightarrow> ('j, 'r, 'e) loop_state \<Rightarrow> bool" where
  "supply_ok reqs s \<longleftrightarrow>
     0 \<le> num_tasks_started (status_tracker s)
     \<and> num_tasks_started (status_tracker s) \<le> int (length reqs)
     \<and> requests_iter s = drop (nat (num_tasks_started (status_tracker s))) (enumerate_py reqs)
     \<and> (requests_exhausted s \<longleftrightarrow>
          num_tasks_started (status_tracker s) = int (length reqs) \<and> reqs \<noteq> [])"

text \<open>The counters count the requests alive, the results and the failures, and a failure
  has left its error.\<close>

definition counts_ok :: "('j, 'r, 'e) loop_state \<Rightarrow> bool" where
  "counts_ok s \<longleftrightarrow>
     counters_balanced (status_tracker s)
     \<and> num_tasks_in_progress (status_tracker s) = int (length (held s))
     \<and> num_tasks_succeeded (status_tracker s) = int (length (results s))
     \<and> 0 \<le> num_tasks_failed (status_tracker s)
     \<and> (0 < num_tasks_failed (status_tracker s) \<longrightarrow> error (status_tracker s) \<noteq> None)"

text \<open>The indices of the requests alive and of the results are distinct indices already
  read; a request alive carries the payload of its index, and a result is a response of
  the API to the payload of its index.\<close>

definition indexed_ok ::
  "('j, 'w, 'r, 'e) config \<Rightarrow> 'j list \<Rightarrow> ('j, 'r, 'e) loop_state \<Rightarrow> bool" where
  "indexed_ok cfg reqs s \<longleftrightarrow>
     mset (map index (held s)) + mset (map fst (results s))
        \<subseteq># indices_read (nat (num_tasks_started (status_tracker s)))
     \<and> (\<forall>r \<in> set (held s). request_json r = reqs ! nat (index r))
     \<and> (\<forall>p \<in> set (results s). \<exists>w. create cfg (reqs ! nat (fst p)) w = Returns (snd p))"

definition consistent ::
  "('j, 'w, 'r, 'e) config \<Rightarrow> 'j list \<Rightarrow> ('j, 'r, 'e) loop_state \<Rightarrow> bool" where
  "consistent cfg reqs s \<longleftrightarrow> supply_ok reqs s \<and> counts_ok s \<and> indexed_ok cfg reqs s"

text \<open>The state \<open>s\<close> is what a consistent state becomes when the call of the request
  \<open>r\<close>, in flight, has been taken up by a worker and not yet handled.\<close>

definition in_flight ::
  "('j, 'w, 'r, 'e) config \<Rightarrow> 'j list \<Rightarrow> 'j APIRequest \<Rightarrow> ('j, 'r, 'e) loop_state \<Rightarrow> bool" where
  "in_flight cfg reqs r s \<longleftrightarrow>
     supply_ok reqs s
     \<and> counters_balanced (status_tracker s)
     \<and> num_tasks_in_progress (status_tracker s) = int (length (held s)) + 1
     \<and> num_tasks_succeeded (status_tracker s) = int (length (results s))
     \<and> 0 \<le> num_tasks_failed (status_tracker s)
     \<and> (0 < num_tasks_failed (status_tracker s) \<longrightarrow> error (status_tracker s) \<noteq> None)
     \<and> add_mset (index r) (mset (map index (held s)) + mset (map fst (results s)))
           \<subseteq># indices_read (nat (num_tasks_started (status_tracker s)))
     \<and> request_json r = reqs ! nat (index r)
     \<and> (\<forall>x \<in> set (held s). request_json x = reqs ! nat (index x))
     \<and> (\<forall>p \<in> set (results s). \<exists>w. create cfg (reqs ! nat (fst p)) w = Returns (snd p))"

lemmas tracker_defs =
  new_StatusTracker_def start_task_def complete_task_def
  increment_num_rate_limit_errors_def increment_num_api_errors_def

lemmas loop_defs =
  tracker_defs on_rate_limit_def on_retryable_def on_unretryable_def call_api_def
  py_int_def enumerate_py_def initial_state_def get_next_request_def update_capacity_def
  admit_def tick_def worker_done_def example_config_def

section \<open>The status tracker\<close>

lemma counters_balanced_new: "counters_balanced new_StatusTracker"
  by (simp add: counters_balanced_def new_StatusTracker_def)

lemma counters_balanced_start_task:
  "counters_balanced (start_task st) = counters_balanced st"
  by (auto simp: counters_balanced_def start_task_def)

lemma counters_balanced_complete_task:
  "counters_balanced (complete_task b st) = counters_balanced st"
  by (auto simp: counters_balanced_def complete_task_def Let_def)

lemma counters_balanced_increments:
  "counters_balanced (increment_num_rate_limit_errors st) = counters_balanced st"
  "counters_balanced (increment_num_api_errors st) = counters_balanced st"
  by (auto simp: counters_balanced_def increment_num_rate_limit_errors_def
        increment_num_api_errors_def)

text \<open>
  Claim C10. A fresh tracker satisfies
  \<open>num_tasks_started = num_tasks_in_progress + num_tasks_succeeded + num_tasks_failed\<close>, and
  every counter operation keeps it: \<open>start_task\<close> adds one to started and to in-progress,
  \<open>complete_task\<close> takes one from in-progress and adds one to exactly one of succeeded and
  failed, the two error counters touch none of the four. So when in-progress is zero,
  every started task has been counted once, as a success or as a failure.
\<close>

theorem StatusTracker_counters_balanced:
  fixes st :: "'e StatusTracker"
  assumes "counters_balanced st"
  shows "counters_balanced (new_StatusTracker :: 'e StatusTracker)
       \<and> counters_balanced (start_task st)
       \<and> counters_balanced (complete_task success st)
       \<and> counters_balanced (increment_num_rate_limit_errors st)
       \<and> counters_balanced (increment_num_api_errors st)
       \<and> num_tasks_started (start_task st) = num_tasks_started st + 1
       \<and> num_tasks_in_progress (start_task st) = num_tasks_in_progress st + 1
       \<and> num_tasks_succeeded (start_task st) = num_tasks_succeeded st
       \<and> num_tasks_failed (start_task st) = num_tasks_failed st
       \<and> num_tasks_started (complete_task success st) = num_tasks_started st
       \<and> num_tasks_in_progress (complete_task success st) = num_tasks_in_progress st - 1
       \<and> num_tasks_succeeded (complete_task success st)
            = num_tasks_succeeded st + (if success then 1 else 0)
       \<and> num_tasks_failed (complete_task success st)
            = num_tasks_failed st + (if success then 0 else 1)
       \<and> (num_tasks_in_progress st = 0 \<longrightarrow>
            num_tasks_started st = num_tasks_succeeded st + num_tasks_failed st)"
proof -
  have "num_tasks_in_progress st = 0 \<longrightarrow>
          num_tasks_started st = num_tasks_succeeded st + num_tasks_failed st"
    using assms by (simp add: counters_balanced_def)
  moreover have "num_tasks_started (start_task st) = num_tasks_started st + 1
       \<and> num_tasks_in_progress (start_task st) = num_tasks_in_progress st + 1
       \<and> num_tasks_succeeded (start_task st) = num_tasks_succeeded st
       \<and> num_tasks_failed (start_task st) = num_tasks_failed st"
    by (simp add: start_task_def)
  moreover have "num_tasks_started (complete_task success st) = num_tasks_started st
       \<and> num_tasks_in_progress (complete_task success st) = num_tasks_in_progress st - 1
       \<and> num_tasks_succeeded (complete_task success st)
            = num_tasks_succeeded st + (if success then 1 else 0)
       \<and> num_tasks_failed (complete_task success st)
            = num_tasks_failed st + (if success then 0 else 1)"
    by (simp add: complete_task_def Let_def)
  ultimately show ?thesis
    using assms
    by (simp only: counters_balanced_new counters_balanced_start_task
          counters_balanced_complete_task counters_balanced_increments simp_thms)
qed

theorem StatusTracker_counters_balanced_witness:
  "counters_balanced (start_task (new_StatusTracker :: unit StatusTracker))
   \<and> counters_balanced (complete_task False (start_task (new_StatusTracker :: unit StatusTracker)))
   \<and> num_tasks_in_progress
        (complete_task False (start_task (new_StatusTracker :: unit StatusTracker))) = 0
   \<and> num_tasks_failed
        (complete_task False (start_task (new_StatusTracker :: unit StatusTracker))) = 1"
proof -
  have h: "counters_balanced (start_task (new_StatusTracker :: unit StatusTracker))"
    by (simp add: counters_balanced_def start_task_def new_StatusTracker_def)
  show ?thesis
    using h StatusTracker_counters_balanced [OF h, of False]
    by (simp add: start_task_def new_StatusTracker_def)
qed

lemma py_int_nonneg: "0 \<le> x \<Longrightarrow> py_int x = \<lfloor>x\<rfloor>"
  by (simp add: py_int_def)









section \<open>Capacity refill\<close>




section \<open>The empty list of requests\<close>

lemma tick_idle: "idle s \<Longrightarrow> \<exists>s'. tick cfg li t1 t2 ok s = Continue s' \<and> idle s'"
  by (simp add: idle_def tick_def get_next_request_def update_capacity_def admit_def Let_def)

lemma worker_done_idle: "idle s \<Longrightarrow> worker_done cfg k w now s = s"
  by (simp add: idle_def worker_done_def)

lemma run_idle: "idle s \<Longrightarrow> \<exists>s'. run cfg li s es = Continue s' \<and> idle s'"
proof (induction es arbitrary: s)
  case Nil
  then show ?case by simp
next
  case (Cons ev es)
  show ?case
  proof (cases ev)
    case (Tick t1 t2 ok)
    obtain s1 where s1: "tick cfg li t1 t2 ok s = Continue s1" "idle s1"
      using tick_idle [OF Cons.prems] by blast
    with Cons.IH [OF s1(2)] Tick show ?thesis by simp
  next
    case (Done k w now)
    with Cons.IH [OF Cons.prems] Cons.prems show ?thesis
      by (simp add: worker_done_idle)
  qed
qed

lemma idle_initial: "idle (initial_state cfg [] t0)"
  by (simp add: idle_def initial_state_def enumerate_py_def)

text \<open>
  Claim C5 at the empty list. \<open>requests_exhausted\<close> is set only when a request is read
  from the supply (\<^verbatim>\<open>requests_exhausted = index == last_index\<close>), so with no request it
  stays \<^verbatim>\<open>False\<close> and the loop never reaches \<^verbatim>\<open>break\<close>: whatever the schedule and however
  long, \<open>process_api_requests\<close> on \<open>[]\<close> has not returned.
\<close>

theorem empty_requests_never_return: "process_api_requests cfg [] t0 es = None"
proof -
  obtain s' where
    "run cfg (int (length ([]::'a list)) - 1) (initial_state cfg [] t0) es = Continue s'"
    using run_idle [OF idle_initial] by blast
  then show ?thesis by (simp add: process_api_requests_def)
qed

section \<open>Admission\<close>

text \<open>
  Claim C1 at a request within the ceiling. The token ceiling is 100 and both requests
  cost 60. The first is admitted at time 0 and leaves 40 tokens; the second, read in the
  next iteration, fails the admission test and is not held: the \<^verbatim>\<open>else\<close> branch counts
  it as failed with "Request size exceeded max tokens", and the run ends in the aggregate
  error although the first call succeeds.
\<close>

theorem request_within_ceiling_dropped:
  "run (example_config 10 100 5 False) 1 (initial_state (example_config 10 100 5 False) [60, 60] 0)
     [Tick 0 0 True, Tick 0 0 True]
   = Continue
      \<lparr>retry_queue = [],
       status_tracker =
         \<lparr>num_tasks_started = 2, num_tasks_in_progress = 1, num_tasks_succeeded = 0,
          num_tasks_failed = 1, num_rate_limit_errors = 0, num_api_errors = 0,
          num_other_errors = 0, time_of_last_rate_limit_error = 0,
          error = Some (MlflowException RequestSizeExceeded)\<rparr>,
       next_request = None, available_request_capacity = 9, available_token_capacity = 40,
       last_update_time = 0, results = [], requests_iter = [], requests_exhausted = True,
       executor = [example_request]\<rparr>
   \<and> process_api_requests (example_config 10 100 5 False) [60, 60] 0
       [Tick 0 0 True, Tick 0 0 True, Done 0 None 1, Tick 1 1 True]
     = Some (Inl (MlflowException (TasksFailed 1)))"
  by (simp add: process_api_requests_def loop_defs finish_def example_request_def Let_def)

section \<open>Rate limit errors\<close>

text \<open>
  Claim C7. When the call raises a rate limit error at time \<open>now\<close>, the request goes back
  to the retry queue if and only if \<open>now - start_time < 600\<close>, with its start time and
  its attempts left as they were; otherwise it is counted as failed, with the error
  "Request failed after retrying for 10 minutes." \<open>start_time\<close> is set once, when the
  request is read from the supply.
\<close>

theorem rate_limit_retry_window:
  assumes "create cfg (request_json self) w = Raises (RateLimitError e)"
  shows "call_api cfg self w now s =
     (if now - start_time self < 600
      then s\<lparr>retry_queue := retry_queue s @
                [self\<lparr>last_log_time :=
                   (if now - last_log_time self > 60 then now else last_log_time self)\<rparr>],
             status_tracker := (status_tracker s)
                \<lparr>time_of_last_rate_limit_error := now,
                 num_rate_limit_errors := num_rate_limit_errors (status_tracker s) + 1\<rparr>\<rparr>
      else s\<lparr>status_tracker := (status_tracker s)
                \<lparr>time_of_last_rate_limit_error := now,
                 num_rate_limit_errors := num_rate_limit_errors (status_tracker s) + 1,
                 num_tasks_in_progress := num_tasks_in_progress (status_tracker s) - 1,
                 num_tasks_failed := num_tasks_failed (status_tracker s) + 1,
                 error := Some (MlflowException RetriedTenMinutes)\<rparr>\<rparr>)
     \<and> (retry_queue (call_api cfg self w now s) \<noteq> retry_queue s)
          = (now - start_time self < 600)
     \<and> (num_tasks_failed (status_tracker (call_api cfg self w now s))
          = num_tasks_failed (status_tracker s) + 1)
          = (\<not> now - start_time self < 600)
     \<and> (num_tasks_failed (status_tracker (call_api cfg self w now s))
          = num_tasks_failed (status_tracker s))
          = (now - start_time self < 600)"
  using assms
  by (simp add: call_api_def on_rate_limit_def tracker_defs Let_def)

theorem rate_limit_retry_window_witness:
  "retry_queue (call_api (example_config 10 100 5 False) example_request
      (Some (RateLimitError ())) 599 (initial_state (example_config 10 100 5 False) [] 0))
     = [example_request\<lparr>last_log_time := 599\<rparr>]
   \<and> retry_queue (call_api (example_config 10 100 5 False) example_request
      (Some (RateLimitError ())) 600 (initial_state (example_config 10 100 5 False) [] 0))
     = []
   \<and> num_tasks_failed (status_tracker (call_api (example_config 10 100 5 False) example_request
      (Some (RateLimitError ())) 600 (initial_state (example_config 10 100 5 False) [] 0)))
     = 1"
proof -
  have h: "create (example_config 10 100 5 False) (request_json example_request)
             (Some (RateLimitError ())) = Raises (RateLimitError ())"
    by (simp add: example_config_def)
  show ?thesis
    using rate_limit_retry_window [OF h, of 599 "initial_state (example_config 10 100 5 False) [] 0"]
      rate_limit_retry_window [OF h, of 600 "initial_state (example_config 10 100 5 False) [] 0"]
    by (simp add: example_request_def initial_state_def new_StatusTracker_def)
qed

section \<open>Attempts left\<close>

text \<open>
  Claim C3 as stated fails. One request, \<open>max_attempts = 5\<close>. It is admitted at time 0
  (attempts left 4), its call fails with a rate limit error at time 1 and it goes to the
  retry queue with 4 attempts left. Admitted again from the retry queue at time 2, it is
  submitted with 3 attempts left.
\<close>

theorem quota_retry_decrements_attempts_left:
  "run (example_config 10 1000 5 False) 0 (initial_state (example_config 10 1000 5 False) [60] 0)
     [Tick 0 0 True, Done 0 (Some (RateLimitError ())) 1]
   = Continue requeued_state
   \<and> run (example_config 10 1000 5 False) 0 (initial_state (example_config 10 1000 5 False) [60] 0)
     [Tick 0 0 True, Done 0 (Some (RateLimitError ())) 1, Tick 2 2 True]
   = Continue
      \<lparr>retry_queue = [],
       status_tracker =
         \<lparr>num_tasks_started = 1, num_tasks_in_progress = 1, num_tasks_succeeded = 0,
          num_tasks_failed = 0, num_rate_limit_errors = 1, num_api_errors = 0,
          num_other_errors = 0, time_of_last_rate_limit_error = 1, error = None\<rparr>,
       next_request = None, available_request_capacity = 8, available_token_capacity = 913,
       last_update_time = 2, results = [], requests_iter = [], requests_exhausted = True,
       executor = [example_request\<lparr>attempts_left := 3\<rparr>]\<rparr>"
  by (simp add: loop_defs example_request_def requeued_state_def Let_def)

text \<open>
  Claim C3, as the code has it. Every admitted submission takes one from the attempts left
  of the request it submits, whether the request comes from the retry queue (where rate
  limit failures and transient failures alike have put it) or is read from the supply
  with \<open>max_attempts\<close> attempts. The handlers of \<open>call_api\<close> put a request back with its
  attempts left unchanged.
\<close>

theorem every_admission_decrements_attempts_left:
  "(next_request s = None \<and> retry_queue s = r # q
      \<and> 1 \<le> available_request_capacity (update_capacity cfg t2 s)
      \<and> of_int (token_consumption r) \<le> available_token_capacity (update_capacity cfg t2 s)
    \<longrightarrow> (\<exists>s'. (tick cfg li t1 t2 True s = Continue s' \<or> tick cfg li t1 t2 True s = Break s')
            \<and> executor s' = executor s @ [r\<lparr>attempts_left := attempts_left r - 1\<rparr>]
            \<and> retry_queue s' = q))
   \<and> (next_request s = None \<and> retry_queue s = [] \<and> requests_iter s = (i, rj) # rest
      \<and> num_tokens_consumed_from_request cfg rj = Inr c
      \<and> 1 \<le> available_request_capacity (update_capacity cfg t2 s)
      \<and> of_int c \<le> available_token_capacity (update_capacity cfg t2 s)
    \<longrightarrow> (\<exists>s'. (tick cfg li t1 t2 True s = Continue s' \<or> tick cfg li t1 t2 True s = Break s')
            \<and> executor s' = executor s @
                 [\<lparr>index = i, request_json = rj, token_consumption = c,
                   attempts_left = max_attempts cfg - 1,
                   start_time = t1, last_log_time = t1\<rparr>]))
   \<and> map attempts_left (retry_queue (on_rate_limit r0 now s0))
       = map attempts_left (retry_queue s0)
           @ (if now - start_time r0 < 600 then [attempts_left r0] else [])
   \<and> map attempts_left (retry_queue (on_retryable r0 e s0))
       = map attempts_left (retry_queue s0) @ (if attempts_left r0 > 0 then [attempts_left r0] else [])"
proof (intro conjI impI)
  assume "next_request s = None \<and> retry_queue s = r # q
      \<and> 1 \<le> available_request_capacity (update_capacity cfg t2 s)
      \<and> of_int (token_consumption r) \<le> available_token_capacity (update_capacity cfg t2 s)"
  then show "\<exists>s'. (tick cfg li t1 t2 True s = Continue s' \<or> tick cfg li t1 t2 True s = Break s')
            \<and> executor s' = executor s @ [r\<lparr>attempts_left := attempts_left r - 1\<rparr>]
            \<and> retry_queue s' = q"
    by (simp add: tick_def get_next_request_def update_capacity_def admit_def Let_def)
next
  assume "next_request s = None \<and> retry_queue s = [] \<and> requests_iter s = (i, rj) # rest
      \<and> num_tokens_consumed_from_request cfg rj = Inr c
      \<and> 1 \<le> available_request_capacity (update_capacity cfg t2 s)
      \<and> of_int c \<le> available_token_capacity (update_capacity cfg t2 s)"
  then show "\<exists>s'. (tick cfg li t1 t2 True s = Continue s' \<or> tick cfg li t1 t2 True s = Break s')
            \<and> executor s' = executor s @
                 [\<lparr>index = i, request_json = rj, token_consumption = c,
                   attempts_left = max_attempts cfg - 1,
                   start_time = t1, last_log_time = t1\<rparr>]"
    by (simp add: tick_def get_next_request_def update_capacity_def admit_def Let_def)
next
  show "map attempts_left (retry_queue (on_rate_limit r0 now s0))
       = map attempts_left (retry_queue s0)
           @ (if now - start_time r0 < 600 then [attempts_left r0] else [])"
    by (simp add: on_rate_limit_def Let_def)
next
  show "map attempts_left (retry_queue (on_retryable r0 e s0))
       = map attempts_left (retry_queue s0) @ (if attempts_left r0 > 0 then [attempts_left r0] else [])"
    by (simp add: on_retryable_def Let_def)
qed

theorem every_admission_decrements_attempts_left_witness:
  "\<exists>s'. (tick (example_config 10 1000 5 False) 0 2 2 True requeued_state = Continue s'
          \<or> tick (example_config 10 1000 5 False) 0 2 2 True requeued_state = Break s')
        \<and> executor s' = [example_request\<lparr>attempts_left := 3\<rparr>]
        \<and> retry_queue s' = []"
proof -
  have h: "next_request requeued_state = None \<and> retry_queue requeued_state = example_request # []
      \<and> 1 \<le> available_request_capacity
               (update_capacity (example_config 10 1000 5 False) 2 requeued_state)
      \<and> of_int (token_consumption example_request)
           \<le> available_token_capacity
               (update_capacity (example_config 10 1000 5 False) 2 requeued_state)"
    by (simp add: requeued_state_def example_request_def example_config_def update_capacity_def
          py_int_def Let_def)
  have ex: "executor requeued_state = []"
    by (simp add: requeued_state_def)
  show ?thesis
    using every_admission_decrements_attempts_left
      [where s = requeued_state and r = example_request and q = "[]"
         and cfg = "example_config 10 1000 5 False" and ?t2.0 = 2 and ?t1.0 = 2 and li = 0,
       THEN conjunct1, THEN mp, OF h]
    by (simp add: ex example_request_def)
qed

section \<open>Transient errors\<close>












section \<open>The budgets stay within their ceilings\<close>


lemma costs_nonneg_update_capacity [simp]:
  "costs_nonneg cfg (update_capacity cfg' t s) = costs_nonneg cfg s"
  by (simp add: costs_nonneg_def held_def update_capacity_def Let_def)











section \<open>Consistency of the loop state\<close>

lemma indices_read_Suc: "indices_read (Suc n) = add_mset (int n) (indices_read n)"
  by (simp add: indices_read_def del: mset_upt)

lemma consistent_initial: "consistent cfg reqs (initial_state cfg reqs t0)"
  by (simp add: consistent_def supply_ok_def counts_ok_def indexed_ok_def initial_state_def
        new_StatusTracker_def counters_balanced_def held_def indices_read_def)

lemma drop_enumerate_py:
  assumes "drop n (enumerate_py xs) = (i, x) # rest"
  shows "n < length xs \<and> i = int n \<and> x = xs ! n \<and> rest = drop (Suc n) (enumerate_py xs)"
proof -
  have len: "length (enumerate_py xs) = length xs"
    by (simp add: enumerate_py_def)
  have n: "n < length xs"
    using assms len by (cases "n < length xs") simp_all
  have "enumerate_py xs ! n # drop (Suc n) (enumerate_py xs) = drop n (enumerate_py xs)"
    using n len by (simp add: Cons_nth_drop_Suc)
  moreover have "enumerate_py xs ! n = (int n, xs ! n)"
    using n by (simp add: enumerate_py_def)
  ultimately show ?thesis
    using assms n by simp
qed

lemma consistent_update_capacity [simp]:
  "consistent cfg reqs (update_capacity cfg' t s) = consistent cfg reqs s"
  by (simp add: consistent_def supply_ok_def counts_ok_def indexed_ok_def update_capacity_def
        held_def Let_def)

lemma get_next_request_consistent:
  assumes "consistent cfg reqs s"
    and "get_next_request cfg (int (length reqs) - 1) t1 s = Inr s'"
  shows "consistent cfg reqs s'"
proof (cases "next_request s")
  case (Some r)
  then show ?thesis using assms by (simp add: get_next_request_def)
next
  case None
  show ?thesis
  proof (cases "retry_queue s")
    case (Cons r q)
    then have "s' = s\<lparr>next_request := Some r, retry_queue := q\<rparr>"
      using assms(2) None by (simp add: get_next_request_def)
    then show ?thesis
      using assms(1) None Cons
      by (simp add: consistent_def supply_ok_def counts_ok_def indexed_ok_def held_def)
  next
    case Nil
    show ?thesis
    proof (cases "requests_iter s")
      case Nil': Nil
      then show ?thesis using assms None Nil by (simp add: get_next_request_def)
    next
      case (Cons p rest)
      obtain i rj where p: "p = (i, rj)" by (cases p)
      obtain c where c: "num_tokens_consumed_from_request cfg rj = Inr c"
        using assms(2) None Nil Cons p
        by (cases "num_tokens_consumed_from_request cfg rj") (simp_all add: get_next_request_def)
      define n where "n = nat (num_tasks_started (status_tracker s))"
      have n0: "num_tasks_started (status_tracker s) = int n"
        using assms(1) by (simp add: consistent_def supply_ok_def n_def)
      have it: "drop n (enumerate_py reqs) = (i, rj) # rest"
        using assms(1) Cons p by (simp add: consistent_def supply_ok_def n_def)
      note d = drop_enumerate_py [OF it]
      have s': "s' = s\<lparr>requests_iter := rest,
                 next_request := Some \<lparr>index = i, request_json = rj, token_consumption = c,
                    attempts_left = max_attempts cfg, start_time = t1, last_log_time = t1\<rparr>,
                 status_tracker := start_task (status_tracker s),
                 requests_exhausted := (i = int (length reqs) - 1)\<rparr>"
        using assms(2) None Nil Cons p c by (simp add: get_next_request_def)
      have st: "num_tasks_started (start_task (status_tracker s)) = int (Suc n)"
        using n0 by (simp add: start_task_def)
      have nS: "nat (1 + int n) = Suc n" "nat (int n + 1) = Suc n"
        by simp_all
      have a: "supply_ok reqs s'"
        unfolding s' supply_ok_def using d st by (auto simp: nS)
      have b: "counts_ok s'"
        using assms(1) None Nil unfolding s' consistent_def counts_ok_def
        by (simp add: held_def start_task_def counters_balanced_def)
      have c: "indexed_ok cfg reqs s'"
        using assms(1) None Nil d unfolding s' consistent_def indexed_ok_def
        by (simp add: held_def st n0 nS indices_read_Suc)
      show ?thesis
        using a b c by (simp add: consistent_def)
    qed
  qed
qed

lemma admit_consistent:
  assumes "consistent cfg reqs s" and "admit ok s = Inr s'"
  shows "consistent cfg reqs s'"
proof (cases "next_request s")
  case None
  then show ?thesis using assms by (simp add: admit_def)
next
  case (Some r)
  show ?thesis
  proof (cases "available_request_capacity s \<ge> 1
                \<and> available_token_capacity s \<ge> of_int (token_consumption r)")
    case True
    then have s': "s' = s\<lparr>available_request_capacity := available_request_capacity s - 1,
                  available_token_capacity :=
                    available_token_capacity s - of_int (token_consumption r),
                  executor := executor s @ [r\<lparr>attempts_left := attempts_left r - 1\<rparr>],
                  next_request := None\<rparr>"
      using assms(2) Some by (simp add: admit_def Let_def split: if_splits)
    show ?thesis
      using assms(1) Some unfolding s'
      by (simp add: consistent_def supply_ok_def counts_ok_def indexed_ok_def held_def)
  next
    case False
    then have s': "s' = s\<lparr>next_request := None,
                  status_tracker := (complete_task False (status_tracker s))
                    \<lparr>error := Some (MlflowException RequestSizeExceeded)\<rparr>\<rparr>"
      using assms(2) Some by (auto simp: admit_def Let_def)
    have a: "supply_ok reqs s'"
      using assms(1) unfolding s' consistent_def supply_ok_def
      by (simp add: complete_task_def Let_def)
    have b: "counts_ok s'"
      using assms(1) Some unfolding s' consistent_def counts_ok_def
      by (simp add: held_def complete_task_def counters_balanced_def Let_def)
    have "mset (map index (retry_queue s @ executor s)) + mset (map fst (results s))
            \<subseteq># mset (map index (held s)) + mset (map fst (results s))"
      using Some by (simp add: held_def)
    then have "mset (map index (retry_queue s @ executor s)) + mset (map fst (results s))
            \<subseteq># indices_read (nat (num_tasks_started (status_tracker s)))"
      using assms(1) unfolding consistent_def indexed_ok_def
      by (meson subset_mset.order_trans)
    then have c: "indexed_ok cfg reqs s'"
      using assms(1) Some unfolding s' consistent_def indexed_ok_def
      by (simp add: held_def complete_task_def Let_def)
    show ?thesis
      using a b c by (simp add: consistent_def)
  qed
qed

lemma tick_consistent:
  assumes "consistent cfg reqs s"
    and "tick cfg (int (length reqs) - 1) t1 t2 ok s = Continue s'
         \<or> tick cfg (int (length reqs) - 1) t1 t2 ok s = Break s'"
  shows "consistent cfg reqs s'"
proof -
  obtain s1 where s1: "get_next_request cfg (int (length reqs) - 1) t1 s = Inr s1"
    using assms(2) by (auto simp: tick_def split: sum.splits)
  then obtain s3 where s3: "admit ok (update_capacity cfg t2 s1) = Inr s3"
    using assms(2) by (auto simp: tick_def split: sum.splits)
  have eq: "s' = s3"
    using assms(2) s1 s3 by (auto simp: tick_def split: if_splits)
  have "consistent cfg reqs (update_capacity cfg t2 s1)"
    using get_next_request_consistent [OF assms(1) s1] by simp
  then show ?thesis
    using admit_consistent [OF _ s3] eq by simp
qed

lemma in_flight_take:
  assumes "consistent cfg reqs s" and "k < length (executor s)"
  shows "in_flight cfg reqs (executor s ! k)
           (s\<lparr>executor := take k (executor s) @ drop (Suc k) (executor s)\<rparr>)"
proof -
  define r where "r = executor s ! k"
  define ex0 where "ex0 = take k (executor s) @ drop (Suc k) (executor s)"
  have ex: "executor s = take k (executor s) @ r # drop (Suc k) (executor s)"
    using assms(2) unfolding r_def by (rule id_take_nth_drop)
  have m: "mset (executor s) = add_mset r (mset ex0)"
    by (subst ex) (simp add: ex0_def)
  have l: "length (executor s) = Suc (length ex0)"
    by (subst ex) (simp add: ex0_def)
  have st: "set (executor s) = insert r (set ex0)"
    by (subst ex) (auto simp: ex0_def)
  have h: "mset (held s) = add_mset r (mset (held (s\<lparr>executor := ex0\<rparr>)))"
      "length (held s) = Suc (length (held (s\<lparr>executor := ex0\<rparr>)))"
      "set (held s) = insert r (set (held (s\<lparr>executor := ex0\<rparr>)))"
    by (simp_all add: held_def m l st)
  have i: "mset (map index (held s)) = add_mset (index r) (mset (map index (held (s\<lparr>executor := ex0\<rparr>))))"
    using h(1) by (simp only: mset_map image_mset_add_mset)
  have "in_flight cfg reqs r (s\<lparr>executor := ex0\<rparr>)"
    using assms(1) unfolding consistent_def counts_ok_def indexed_ok_def in_flight_def h(2) h(3) i
    by (simp add: supply_ok_def)
  then show ?thesis by (simp add: r_def ex0_def)
qed

lemma in_flight_requeue:
  assumes "in_flight cfg reqs r s"
    and "num_tasks_started st' = num_tasks_started (status_tracker s)"
    and "num_tasks_in_progress st' = num_tasks_in_progress (status_tracker s)"
    and "num_tasks_succeeded st' = num_tasks_succeeded (status_tracker s)"
    and "num_tasks_failed st' = num_tasks_failed (status_tracker s)"
    and "error st' = error (status_tracker s)"
    and "index r' = index r" and "request_json r' = request_json r"
  shows "consistent cfg reqs (s\<lparr>status_tracker := st', retry_queue := retry_queue s @ [r']\<rparr>)"
proof -
  let ?s = "s\<lparr>status_tracker := st', retry_queue := retry_queue s @ [r']\<rparr>"
  have h: "mset (held ?s) = add_mset r' (mset (held s))"
      "length (held ?s) = Suc (length (held s))"
      "set (held ?s) = insert r' (set (held s))"
    by (simp_all add: held_def)
  have i: "mset (map index (held ?s)) = add_mset (index r) (mset (map index (held s)))"
    using h(1) assms(7) by (simp only: mset_map image_mset_add_mset)
  have a: "supply_ok reqs ?s"
    using assms by (simp add: in_flight_def supply_ok_def)
  have b: "counts_ok ?s"
    using assms(1-6) unfolding counts_ok_def in_flight_def h(2)
    by (simp add: counters_balanced_def)
  have c: "indexed_ok cfg reqs ?s"
    using assms(1,2,7,8) unfolding indexed_ok_def in_flight_def h(3) i
    by simp
  show ?thesis using a b c by (simp add: consistent_def)
qed

lemma in_flight_failed:
  assumes "in_flight cfg reqs r s"
    and "num_tasks_started st' = num_tasks_started (status_tracker s)"
    and "num_tasks_in_progress st' = num_tasks_in_progress (status_tracker s) - 1"
    and "num_tasks_succeeded st' = num_tasks_succeeded (status_tracker s)"
    and "num_tasks_failed st' = num_tasks_failed (status_tracker s) + 1"
    and "error st' \<noteq> None"
  shows "consistent cfg reqs (s\<lparr>status_tracker := st'\<rparr>)"
proof -
  let ?s = "s\<lparr>status_tracker := st'\<rparr>"
  have h: "held ?s = held s"
    by (simp add: held_def)
  have a: "supply_ok reqs ?s"
    using assms by (simp add: in_flight_def supply_ok_def)
  have b: "counts_ok ?s"
    using assms(1-6) unfolding counts_ok_def in_flight_def h
    by (simp add: counters_balanced_def)
  have "mset (map index (held s)) + mset (map fst (results s))
          \<subseteq># add_mset (index r) (mset (map index (held s)) + mset (map fst (results s)))"
    by simp
  moreover have "add_mset (index r) (mset (map index (held s)) + mset (map fst (results s)))
          \<subseteq># indices_read (nat (num_tasks_started (status_tracker s)))"
    using assms(1) by (simp add: in_flight_def)
  ultimately have "mset (map index (held s)) + mset (map fst (results s))
          \<subseteq># indices_read (nat (num_tasks_started (status_tracker s)))"
    by (rule subset_mset.order_trans)
  then have c: "indexed_ok cfg reqs ?s"
    using assms(1,2) unfolding indexed_ok_def in_flight_def h
    by simp
  show ?thesis using a b c by (simp add: consistent_def)
qed

lemma in_flight_succeeded:
  assumes "in_flight cfg reqs r s"
    and "create cfg (request_json r) w = Returns a"
  shows "consistent cfg reqs
           (s\<lparr>status_tracker := complete_task True (status_tracker s),
              results := results s @ [(index r, a)]\<rparr>)"
proof -
  let ?s = "s\<lparr>status_tracker := complete_task True (status_tracker s),
              results := results s @ [(index r, a)]\<rparr>"
  have h: "held ?s = held s"
    by (simp add: held_def)
  have a: "supply_ok reqs ?s"
    using assms by (simp add: in_flight_def supply_ok_def complete_task_def Let_def)
  have b: "counts_ok ?s"
    using assms(1) unfolding counts_ok_def in_flight_def h
    by (simp add: counters_balanced_def complete_task_def Let_def)
  have e: "\<exists>w. create cfg (reqs ! nat (index r)) w = Returns a"
    using assms by (auto simp: in_flight_def)
  have c: "indexed_ok cfg reqs ?s"
    using assms(1) e unfolding indexed_ok_def in_flight_def h
    by (simp add: complete_task_def Let_def)
  show ?thesis using a b c by (simp add: consistent_def)
qed

lemma in_flight_on_rate_limit:
  assumes "in_flight cfg reqs r s"
  shows "consistent cfg reqs (on_rate_limit r now s)"
proof (cases "now - start_time r < 600")
  case True
  show ?thesis
    unfolding on_rate_limit_def Let_def using True
    by (simp add: in_flight_requeue [OF assms] increment_num_rate_limit_errors_def)
next
  case False
  show ?thesis
    unfolding on_rate_limit_def Let_def using False
    by (simp add: in_flight_failed [OF assms] increment_num_rate_limit_errors_def
          complete_task_def Let_def)
qed

lemma in_flight_on_retryable:
  assumes "in_flight cfg reqs r s"
  shows "consistent cfg reqs (on_retryable r e s)"
proof (cases "attempts_left r > 0")
  case True
  show ?thesis
    unfolding on_retryable_def Let_def using True
    by (simp add: in_flight_requeue [OF assms] increment_num_api_errors_def)
next
  case False
  show ?thesis
    unfolding on_retryable_def Let_def using False
    by (simp add: in_flight_failed [OF assms] increment_num_api_errors_def
          complete_task_def Let_def)
qed

lemma in_flight_on_unretryable:
  assumes "in_flight cfg reqs r s"
  shows "consistent cfg reqs (on_unretryable e s)"
  unfolding on_unretryable_def
  by (simp add: in_flight_failed [OF assms] increment_num_api_errors_def
        complete_task_def Let_def)

lemma worker_done_consistent:
  assumes "consistent cfg reqs s"
  shows "consistent cfg reqs (worker_done cfg k w now s)"
proof (cases "k < length (executor s)")
  case False
  then show ?thesis using assms by (simp add: worker_done_def)
next
  case True
  define r where "r = executor s ! k"
  define s0 where "s0 = s\<lparr>executor := take k (executor s) @ drop (Suc k) (executor s)\<rparr>"
  have f: "in_flight cfg reqs r s0"
    using in_flight_take [OF assms True] by (simp add: r_def s0_def)
  have "consistent cfg reqs (handle_outcome r now (create cfg (request_json r) w) s0)"
  proof (cases "create cfg (request_json r) w")
    case (Returns a)
    then show ?thesis using in_flight_succeeded [OF f Returns] by simp
  next
    case (Raises e)
    then show ?thesis
      using in_flight_on_rate_limit [OF f] in_flight_on_retryable [OF f]
        in_flight_on_unretryable [OF f]
      by (cases e) simp_all
  qed
  then show ?thesis
    using True by (simp add: worker_done_def call_api_def r_def s0_def)
qed

lemma run_consistent:
  "consistent cfg reqs s \<Longrightarrow>
   run cfg (int (length reqs) - 1) s es = Continue s'
     \<or> run cfg (int (length reqs) - 1) s es = Break s' \<Longrightarrow>
   consistent cfg reqs s'"
proof (induction es arbitrary: s)
  case Nil
  then show ?case by simp
next
  case (Cons ev es)
  show ?case
  proof (cases ev)
    case (Tick t1 t2 ok)
    show ?thesis
    proof (cases "tick cfg (int (length reqs) - 1) t1 t2 ok s")
      case (Continue s1)
      have "consistent cfg reqs s1"
        using tick_consistent [OF Cons.prems(1), of t1 t2 ok s1] Continue by simp
      then show ?thesis
        using Cons.IH [of s1] Cons.prems(2) Tick Continue by simp
    next
      case (Break s1)
      have "consistent cfg reqs s1"
        using tick_consistent [OF Cons.prems(1), of t1 t2 ok s1] Break by simp
      then show ?thesis
        using Cons.prems(2) Tick Break by simp
    next
      case (Raised x)
      then show ?thesis using Cons.prems(2) Tick by simp
    qed
  next
    case (Done k w now)
    show ?thesis
      using Cons.IH [OF worker_done_consistent [OF Cons.prems(1), of k w now]] Cons.prems(2) Done
      by simp
  qed
qed

lemma run_Break:
  "run cfg li s es = Break s' \<Longrightarrow>
   requests_exhausted s' \<and> num_tasks_in_progress (status_tracker s') = 0"
proof (induction es arbitrary: s)
  case Nil
  then show ?case by simp
next
  case (Cons ev es)
  show ?case
  proof (cases ev)
    case (Tick t1 t2 ok)
    show ?thesis
    proof (cases "tick cfg li t1 t2 ok s")
      case (Continue s1)
      then show ?thesis using Cons Tick by simp
    next
      case (Break s1)
      then have "s1 = s'" using Cons.prems Tick by simp
      then show ?thesis
        using Break by (auto simp: tick_def split: sum.splits if_splits)
    next
      case (Raised x)
      then show ?thesis using Cons.prems Tick by simp
    qed
  next
    case (Done k w now)
    then show ?thesis using Cons by simp
  qed
qed

section \<open>The end of a run\<close>

lemma indices_read_distinct:
  assumes "mset xs \<subseteq># indices_read n"
  shows "distinct xs"
proof -
  have d: "distinct (map int [0..<n])"
    by (simp add: distinct_map)
  have "count (mset xs) a \<le> 1" for a
  proof -
    have "count (mset xs) a \<le> count (mset (map int [0..<n])) a"
      using assms unfolding indices_read_def by (rule mset_subset_eq_count)
    also have "\<dots> \<le> 1"
      using d by (simp only: distinct_count_atmost_1) simp
    finally show ?thesis .
  qed
  moreover have "0 < count (mset xs) a" if "a \<in> set xs" for a
    using that by simp
  ultimately have "count (mset xs) a = (if a \<in> set xs then 1 else 0)" for a
    by (cases "a \<in> set xs") (auto simp: le_Suc_eq count_eq_zero_iff)
  then show ?thesis
    by (simp only: distinct_count_atmost_1) simp
qed

lemma subset_mset_same_size:
  assumes "A \<subseteq># B" and "size A = size B"
  shows "A = B"
proof (rule ccontr)
  assume "A \<noteq> B"
  then have "A \<subset># B" using assms(1) by (simp add: subset_mset.less_le)
  then have "size A < size B" by (rule mset_subset_size)
  then show False using assms(2) by simp
qed

lemma sort_key_fst_indices:
  assumes "mset (map fst rs) = indices_read n"
  shows "map fst (sort_key fst rs) = map int [0..<n]"
proof -
  let ?ys = "map fst (sort_key fst rs)"
  have "mset ?ys = mset (map int [0..<n])"
    using assms by (simp add: indices_read_def)
  moreover have "sorted ?ys" by simp
  ultimately have "sort (map int [0..<n]) = ?ys"
    by (rule properties_for_sort)
  moreover have "sorted (map int [0..<n])"
    by (simp add: sorted_map sorted_wrt_iff_nth_less)
  ultimately show ?thesis
    by (simp add: sorted_sort_id)
qed

lemma sorted_results_distinct:
  assumes "distinct (map fst rs)"
  shows "sorted_results rs = Inr (map snd (sort_key fst rs))"
proof -
  have "a = b" if "(i, a) \<in> set rs" "(i, b) \<in> set rs" for i a b
    using assms that by (rule eq_key_imp_eq_value)
  then have "\<not> (\<exists>(i, a) \<in> set rs. \<exists>(j, b) \<in> set rs. i = j \<and> a \<noteq> b)"
    by auto
  then show ?thesis
    unfolding sorted_results_def by (simp only: if_False)
qed

lemma Break_state:
  assumes "run cfg (int (length reqs) - 1) (initial_state cfg reqs t0) es = Break s"
  shows "consistent cfg reqs s" and "held s = []"
    and "num_tasks_started (status_tracker s) = int (length reqs)"
    and "mset (map fst (results s)) \<subseteq># indices_read (length reqs)"
    and "distinct (map fst (results s))"
proof -
  show c: "consistent cfg reqs s"
    using run_consistent [OF consistent_initial, of cfg reqs t0 es s] assms by simp
  have b: "requests_exhausted s" "num_tasks_in_progress (status_tracker s) = 0"
    using run_Break [OF assms] by simp_all
  show h: "held s = []"
    using c b(2) by (simp add: consistent_def counts_ok_def)
  show n: "num_tasks_started (status_tracker s) = int (length reqs)"
    using c b(1) by (simp add: consistent_def supply_ok_def)
  show m: "mset (map fst (results s)) \<subseteq># indices_read (length reqs)"
    using c h n by (simp add: consistent_def indexed_ok_def)
  show "distinct (map fst (results s))"
    using m by (rule indices_read_distinct)
qed

text \<open>
  Claim C6. When \<open>process_api_requests\<close> returns a list, whatever the schedule (the order
  in which the calls complete, the retries in between), the list has one entry for each
  request, and its entry at position \<open>i\<close> is a response of the API to the payload of
  request \<open>i\<close>.
\<close>

theorem results_in_request_order:
  fixes cfg :: "('j, 'w, 'r, 'e) config"
  assumes "process_api_requests cfg reqs t0 es = Some (Inr out)"
  shows "length out = length reqs
       \<and> (\<forall>i < length reqs. \<exists>w. create cfg (reqs ! i) w = Returns (out ! i))"
proof -
  obtain s where s: "run cfg (int (length reqs) - 1) (initial_state cfg reqs t0) es = Break s"
    and f: "finish cfg (length reqs) s = Inr out"
    using assms
    by (auto simp: process_api_requests_def split: iteration.splits)
  note b = Break_state [OF s]
  have nf: "\<not> 0 < num_tasks_failed (status_tracker s)"
    using f by (auto simp: finish_def Let_def split: if_splits option.splits)
  then have f0: "num_tasks_failed (status_tracker s) = 0"
    using b(1) by (simp add: consistent_def counts_ok_def)
  have "(sorted_results (results s) :: 'e exn + 'r list)
          = Inr (map snd (sort_key fst (results s)))"
    using b(5) by (rule sorted_results_distinct)
  then have out: "out = map snd (sort_key fst (results s))"
    using f nf by (simp add: finish_def Let_def)
  have len: "length (results s) = length reqs"
    using b(1) b(2) b(3) f0
    by (simp add: consistent_def counts_ok_def counters_balanced_def)
  have "size (mset (map fst (results s))) = size (indices_read (length reqs))"
    using len by (simp add: indices_read_def)
  then have "mset (map fst (results s)) = indices_read (length reqs)"
    using b(4) by (intro subset_mset_same_size)
  then have keys: "map fst (sort_key fst (results s)) = map int [0..<length reqs]"
    by (rule sort_key_fst_indices)
  have "\<exists>w. create cfg (reqs ! i) w = Returns (out ! i)" if "i < length reqs" for i
  proof -
    let ?p = "sort_key fst (results s) ! i"
    have i: "i < length (sort_key fst (results s))"
      using that len by simp
    have "fst ?p = map fst (sort_key fst (results s)) ! i"
      using i by simp
    then have k: "fst ?p = int i"
      using keys that by simp
    have "?p \<in> set (results s)"
      using i nth_mem [OF i] by simp
    then have "\<exists>w. create cfg (reqs ! nat (fst ?p)) w = Returns (snd ?p)"
      using b(1) by (simp add: consistent_def indexed_ok_def)
    then show ?thesis
      using k i by (simp add: out)
  qed
  then show ?thesis
    using len by (simp add: out)
qed

theorem results_in_request_order_witness:
  "process_api_requests (example_config 10 1000 5 False) [60, 7, 5] 0
     [Tick 0 0 True, Tick 0 0 True, Tick 0 0 True, Done 2 None 1, Done 0 None 1, Done 0 None 1,
      Tick 1 1 True]
     = Some (Inr [120, 14, 10])
   \<and> length [120, 14, 10 :: int] = length [60, 7, 5 :: int]
   \<and> (\<exists>w. create (example_config 10 1000 5 False) ([60, 7, 5] ! 2) w = Returns ([120, 14, 10] ! 2))"
proof -
  have r: "process_api_requests (example_config 10 1000 5 False) [60, 7, 5] 0
     [Tick 0 0 True, Tick 0 0 True, Tick 0 0 True, Done 2 None 1, Done 0 None 1, Done 0 None 1,
      Tick 1 1 True]
     = Some (Inr [120, 14, 10])"
    by (simp add: process_api_requests_def loop_defs finish_def sorted_results_def Let_def)
  have "2 < length [60, 7, 5 :: int]" by simp
  then show ?thesis
    using r results_in_request_order [OF r] by blast
qed



end
